theory Spec2Isabelle
  imports Main "HOL-Library.Word"
begin

section \<open>AModifierCharacter: the change notification\<close>

text \<open>
  Source: \<^verbatim>\<open>Source/PredictedMovement/Public/Modifier/ModifierCharacter.h\<close>.

  \<^verbatim>\<open>FGameplayTag\<close> is an engine type; the notification only passes tags on, so a tag
  is a value of a type parameter \<open>'tag\<close>. The three virtual handlers
  \<^verbatim>\<open>OnModifierAdded\<close>, \<^verbatim>\<open>OnModifierRemoved\<close> and \<^verbatim>\<open>OnModifierChanged\<close> are only
  declared in the header; a call to one of them is recorded as an event that carries
  the three tags of the call, and a run of \<^verbatim>\<open>NotifyModifierChanged\<close> is the list of
  the handler calls it makes, in call order.
\<close>

datatype 'tag Event =
    OnModifierAdded 'tag 'tag 'tag
  | OnModifierRemoved 'tag 'tag 'tag
  | OnModifierChanged 'tag 'tag 'tag

fun isAdded :: "'tag Event \<Rightarrow> bool" where
  "isAdded (OnModifierAdded t l p) = True"
| "isAdded (OnModifierRemoved t l p) = False"
| "isAdded (OnModifierChanged t l p) = False"

fun isRemoved :: "'tag Event \<Rightarrow> bool" where
  "isRemoved (OnModifierAdded t l p) = False"
| "isRemoved (OnModifierRemoved t l p) = True"
| "isRemoved (OnModifierChanged t l p) = False"

fun isChanged :: "'tag Event \<Rightarrow> bool" where
  "isChanged (OnModifierAdded t l p) = False"
| "isChanged (OnModifierRemoved t l p) = False"
| "isChanged (OnModifierChanged t l p) = True"

text \<open>
  \<^verbatim>\<open>
  template<typename T>
  void NotifyModifierChanged(const FGameplayTag& ModifierType, const FGameplayTag& ModifierLevel,
      const FGameplayTag& PrevModifierLevel, T ModifierLevelValue, T PrevModifierLevelValue, T InvalidLevel)
  {
      if (ModifierLevelValue != InvalidLevel && PrevModifierLevelValue == InvalidLevel)
          OnModifierAdded(ModifierType, ModifierLevel, PrevModifierLevel);
      else if (ModifierLevelValue == InvalidLevel && PrevModifierLevelValue != InvalidLevel)
          OnModifierRemoved(ModifierType, ModifierLevel, PrevModifierLevel);

      OnModifierChanged(ModifierType, ModifierLevel, PrevModifierLevel);
  }
  \<close>
  The template parameter \<open>T\<close> is the type parameter \<open>'v\<close>; \<^verbatim>\<open>==\<close> and \<^verbatim>\<open>!=\<close> on it
  are equality and its negation, as they are for \<^verbatim>\<open>uint8\<close>, the type of the replicated
  summaries.
\<close>

definition NotifyModifierChanged ::
  "'tag \<Rightarrow> 'tag \<Rightarrow> 'tag \<Rightarrow> 'v \<Rightarrow> 'v \<Rightarrow> 'v \<Rightarrow> 'tag Event list" where
  "NotifyModifierChanged ModifierType ModifierLevel PrevModifierLevel
       ModifierLevelValue PrevModifierLevelValue InvalidLevel =
     (if ModifierLevelValue \<noteq> InvalidLevel \<and> PrevModifierLevelValue = InvalidLevel
        then [OnModifierAdded ModifierType ModifierLevel PrevModifierLevel]
      else if ModifierLevelValue = InvalidLevel \<and> PrevModifierLevelValue \<noteq> InvalidLevel
        then [OnModifierRemoved ModifierType ModifierLevel PrevModifierLevel]
      else [])
     @ [OnModifierChanged ModifierType ModifierLevel PrevModifierLevel]"

section \<open>AModifierCharacter: the replicated summaries\<close>

text \<open>
  \<^verbatim>\<open>
  UPROPERTY(ReplicatedUsing=OnRep_SimulatedBoost)    uint8 SimulatedBoost = NO_MODIFIER;
  UPROPERTY(ReplicatedUsing=OnRep_SimulatedSnare)    uint8 SimulatedSnare = NO_MODIFIER;
  UPROPERTY(ReplicatedUsing=OnRep_SimulatedSlowFall) uint8 SimulatedSlowFall = NO_MODIFIER;
  \<close>
  The three replicated fields of the class, with their default member initialisers.
  The macro \<^verbatim>\<open>NO_MODIFIER\<close> comes from \<^verbatim>\<open>ModifierTypes.h\<close>, which is not among the
  sources: it is a parameter of the model, a \<^verbatim>\<open>uint8\<close> like the fields it initialises.
\<close>

type_synonym uint8 = "8 word"

record ModifierCharacter =
  SimulatedBoost :: uint8
  SimulatedSnare :: uint8
  SimulatedSlowFall :: uint8

definition default_member_init :: "uint8 \<Rightarrow> ModifierCharacter" where
  "default_member_init NO_MODIFIER =
     \<lparr> SimulatedBoost = NO_MODIFIER,
       SimulatedSnare = NO_MODIFIER,
       SimulatedSlowFall = NO_MODIFIER \<rparr>"

section \<open>ModifierStack (specification, section 4.1)\<close>

text \<open>
  The header only declares the requests (\<^verbatim>\<open>Boost\<close>, \<^verbatim>\<open>UnBoost\<close>, \<^verbatim>\<open>ResetBoost\<close> and
  their Snare and SlowFall twins); the stack they act on belongs to
  \<^verbatim>\<open>UModifierMovement\<close> and \<^verbatim>\<open>ModifierTypes.h\<close>, which are not among the sources. The
  definitions of this section and the next follow the specification's words.
\<close>

text \<open>
  Modelled from the spec: the origin of an entry, "origin (local-predicted / server /
  remote-replicated)" (section 3, ModifierEntry).
\<close>

datatype Origin = LocalPredicted | ServerAuthority | RemoteReplicated

text \<open>
  Modelled from the spec: a ModifierEntry is "{level identifier, origin, insertion
  order}" and a ModifierStack "owns an ordered sequence of ModifierEntry" (section 3).
  The stack is the list of its entries in insertion order, earliest first, so the
  insertion order of an entry is its position in the list.
\<close>

record 'l ModifierEntry =
  level :: 'l
  origin :: Origin

type_synonym 'l ModifierStack = "'l ModifierEntry list"

text \<open>
  Modelled from the spec: the default tie-break policy, "the effective level is the
  highest-ordinal active level; among equal-ordinal entries, the earliest inserted
  wins" (section 4.1). The scan keeps the best entry met so far and replaces it only
  by an entry of strictly higher ordinal. The ordinal of a level is given by the
  category, the parameter \<open>ord\<close>.
\<close>

fun highest_from ::
  "('l \<Rightarrow> nat) \<Rightarrow> 'l ModifierEntry \<Rightarrow> 'l ModifierEntry list \<Rightarrow> 'l ModifierEntry" where
  "highest_from ord best [] = best"
| "highest_from ord best (e # es) =
     highest_from ord (if ord (level best) < ord (level e) then e else best) es"

text \<open>
  Modelled from the spec: the entry that decides the effective level; an empty stack has
  none. The scan starts from the earliest entry.
\<close>

definition EffectiveEntry :: "('l \<Rightarrow> nat) \<Rightarrow> 'l ModifierStack \<Rightarrow> 'l ModifierEntry option" where
  "EffectiveEntry ord es =
     (case es of [] \<Rightarrow> None | e # es' \<Rightarrow> Some (highest_from ord e es'))"

text \<open>
  Modelled from the spec: "EffectiveLevel() -> level identifier | sentinel", a pure
  query (section 4.1). The sentinel is \<open>None\<close>.
\<close>

definition EffectiveLevel :: "('l \<Rightarrow> nat) \<Rightarrow> 'l ModifierStack \<Rightarrow> 'l option" where
  "EffectiveLevel ord es = map_option level (EffectiveEntry ord es)"

text \<open>
  Modelled from the spec: "Add(level, origin) -> effectiveChanged: bool: inserts a new
  entry; never rejects on duplicate levels. Recomputes effective level. Returns
  whether the effective level differs from before the call" (section 4.1).
\<close>

definition Add ::
  "('l \<Rightarrow> nat) \<Rightarrow> 'l \<Rightarrow> Origin \<Rightarrow> 'l ModifierStack \<Rightarrow> 'l ModifierStack \<times> bool" where
  "Add ord l orig es =
     (let es' = es @ [\<lparr> level = l, origin = orig \<rparr>]
      in (es', EffectiveLevel ord es' \<noteq> EffectiveLevel ord es))"

text \<open>
  Modelled from the spec: "Remove(level, removeAll: bool) -> removedCount: int: if
  removeAll is false, removes exactly one entry matching level (the earliest-inserted
  match); if true, removes every matching entry. No-op, returns 0, if no match exists"
  (section 4.1); the header's \<^verbatim>\<open>UnBoost\<close> documents \<^verbatim>\<open>bRemoveAll\<close> the same way ("removes
  all Boosts of the specified level, otherwise only removes the first one found").
  Both removals are scans from the earliest entry on; each returns the new stack and
  the number of entries it removed.
\<close>

fun remove_one :: "'l \<Rightarrow> 'l ModifierStack \<Rightarrow> 'l ModifierStack \<times> int" where
  "remove_one l [] = ([], 0)"
| "remove_one l (e # es) =
     (if level e = l then (es, 1)
      else (case remove_one l es of (es', n) \<Rightarrow> (e # es', n)))"

text \<open>
  Modelled from the spec: "if true, removes every matching entry" (section 4.1).
\<close>

fun remove_every :: "'l \<Rightarrow> 'l ModifierStack \<Rightarrow> 'l ModifierStack \<times> int" where
  "remove_every l [] = ([], 0)"
| "remove_every l (e # es) =
     (case remove_every l es of (es', n) \<Rightarrow>
        if level e = l then (es', n + 1) else (e # es', n))"

text \<open>
  Modelled from the spec: \<open>Remove\<close> itself, which picks the scan by \<^verbatim>\<open>removeAll\<close>.
\<close>

definition Remove :: "'l \<Rightarrow> bool \<Rightarrow> 'l ModifierStack \<Rightarrow> 'l ModifierStack \<times> int" where
  "Remove l bRemoveAll es = (if bRemoveAll then remove_every l es else remove_one l es)"

section \<open>Level ordinals (specification, sections 3 and 6)\<close>

text \<open>
  Modelled from the spec: a category has an "ordered set of valid level identifiers"
  (section 3), here the list \<open>ls\<close>, and "new levels append at the end of the ordinal
  sequence, never renumber existing ones" (section 6): the ordinal of a level is its
  position in the list (the length of the list for a level that is not in it).
\<close>

definition ordinal :: "'l list \<Rightarrow> 'l \<Rightarrow> nat" where
  "ordinal ls l = length (takeWhile (\<lambda>x. x \<noteq> l) ls)"

section \<open>Properties of the change notification\<close>

lemma NotifyModifierChanged_cases:
  "NotifyModifierChanged ty l p v pv nol =
     (if v \<noteq> nol \<and> pv = nol then [OnModifierAdded ty l p, OnModifierChanged ty l p]
      else if v = nol \<and> pv \<noteq> nol then [OnModifierRemoved ty l p, OnModifierChanged ty l p]
      else [OnModifierChanged ty l p])"
  by (simp add: NotifyModifierChanged_def)

text \<open>
  Claim C1, as amended. The claim reads: a call with equal previous and new
  level values fires no event at all. The source calls \<^verbatim>\<open>OnModifierChanged\<close> outside the
  \<^verbatim>\<open>if\<close>/\<^verbatim>\<open>else if\<close>, so on such a call the changed-handler still runs. What holds for
  every value \<open>v\<close> (passed as both the new and the previous value), every invalid level
  and all tags: no added- and no removed-event fires, and the run is exactly the one
  call of \<^verbatim>\<open>OnModifierChanged\<close>.
\<close>

theorem C1_equal_levels_fire_only_changed:
  "NotifyModifierChanged ty l p v v nol = [OnModifierChanged ty l p]
   \<and> \<not> list_ex isAdded (NotifyModifierChanged ty l p v v nol)
   \<and> \<not> list_ex isRemoved (NotifyModifierChanged ty l p v v nol)
   \<and> list_ex isChanged (NotifyModifierChanged ty l p v v nol)"
  by (simp add: NotifyModifierChanged_cases)

text \<open>
  Claim C1 as stated fails: with the Boost level unchanged at byte 1 (invalid level
  255, equal level tags) the run is not empty, the changed-handler is called.
\<close>

theorem C1_counterexample:
  "NotifyModifierChanged ''Modifier.Boost'' ''Modifier.Boost.Level1'' ''Modifier.Boost.Level1''
       (1 :: uint8) 1 255
     = [OnModifierChanged ''Modifier.Boost'' ''Modifier.Boost.Level1'' ''Modifier.Boost.Level1'']
   \<and> NotifyModifierChanged ''Modifier.Boost'' ''Modifier.Boost.Level1'' ''Modifier.Boost.Level1''
       (1 :: uint8) 1 255 \<noteq> []"
  by (simp add: NotifyModifierChanged_def)

text \<open>
  Claim C2: on every call, an added-event fires exactly when the previous value is the
  invalid level and the new one is not, and a removed-event fires exactly when the
  previous value is not the invalid level and the new one is. The events carry the
  tags of the call.
\<close>

theorem C2_added_removed_iff:
  "(list_ex isAdded (NotifyModifierChanged ty l p v pv nol) \<longleftrightarrow> pv = nol \<and> v \<noteq> nol)
   \<and> (list_ex isRemoved (NotifyModifierChanged ty l p v pv nol) \<longleftrightarrow> pv \<noteq> nol \<and> v = nol)
   \<and> filter isAdded (NotifyModifierChanged ty l p v pv nol)
       = (if pv = nol \<and> v \<noteq> nol then [OnModifierAdded ty l p] else [])
   \<and> filter isRemoved (NotifyModifierChanged ty l p v pv nol)
       = (if pv \<noteq> nol \<and> v = nol then [OnModifierRemoved ty l p] else [])"
  by (simp add: NotifyModifierChanged_cases)

text \<open>
  Claim C3: on every call whose previous and new values differ, the changed-event
  fires (once, as the last handler call, with the tags of the call), also when an
  added- or removed-event fires on the same call.
\<close>

theorem C3_changed_fires_when_levels_differ:
  "pv \<noteq> v \<Longrightarrow>
     filter isChanged (NotifyModifierChanged ty l p v pv nol) = [OnModifierChanged ty l p]
     \<and> last (NotifyModifierChanged ty l p v pv nol) = OnModifierChanged ty l p
     \<and> list_ex isChanged (NotifyModifierChanged ty l p v pv nol)"
  by (simp add: NotifyModifierChanged_cases)

text \<open>
  Witness for C3: the three kinds of differing calls on the Boost byte with invalid
  level 255: none to level 0 (added and changed), level 0 to none (removed and changed),
  level 0 to level 1 (changed alone).
\<close>

theorem C3_witness:
  "(255 :: uint8) \<noteq> 0
   \<and> NotifyModifierChanged ''Modifier.Boost'' ''Modifier.Boost.Level1'' '''' (0 :: uint8) 255 255
       = [OnModifierAdded ''Modifier.Boost'' ''Modifier.Boost.Level1'' '''',
          OnModifierChanged ''Modifier.Boost'' ''Modifier.Boost.Level1'' '''']
   \<and> filter isChanged
         (NotifyModifierChanged ''Modifier.Boost'' ''Modifier.Boost.Level1'' '''' (0 :: uint8) 255 255)
       = [OnModifierChanged ''Modifier.Boost'' ''Modifier.Boost.Level1'' '''']
   \<and> (0 :: uint8) \<noteq> 255
   \<and> NotifyModifierChanged ''Modifier.Boost'' '''' ''Modifier.Boost.Level1'' (255 :: uint8) 0 255
       = [OnModifierRemoved ''Modifier.Boost'' '''' ''Modifier.Boost.Level1'',
          OnModifierChanged ''Modifier.Boost'' '''' ''Modifier.Boost.Level1'']
   \<and> filter isChanged
         (NotifyModifierChanged ''Modifier.Boost'' '''' ''Modifier.Boost.Level1'' (255 :: uint8) 0 255)
       = [OnModifierChanged ''Modifier.Boost'' '''' ''Modifier.Boost.Level1'']
   \<and> (0 :: uint8) \<noteq> 1
   \<and> filter isChanged
         (NotifyModifierChanged ''Modifier.Boost'' ''Modifier.Boost.Level2'' ''Modifier.Boost.Level1''
            (1 :: uint8) 0 255)
       = [OnModifierChanged ''Modifier.Boost'' ''Modifier.Boost.Level2'' ''Modifier.Boost.Level1'']"
  using C3_changed_fires_when_levels_differ
          [of "255 :: uint8" 0 "''Modifier.Boost''" "''Modifier.Boost.Level1''" "''''" 255]
        C3_changed_fires_when_levels_differ
          [of "0 :: uint8" 255 "''Modifier.Boost''" "''''" "''Modifier.Boost.Level1''" 255]
        C3_changed_fires_when_levels_differ
          [of "0 :: uint8" 1 "''Modifier.Boost''" "''Modifier.Boost.Level2''"
              "''Modifier.Boost.Level1''" 255]
  by (simp add: NotifyModifierChanged_def)

text \<open>
  Claim C9: every call invokes \<^verbatim>\<open>OnModifierChanged\<close> exactly once, whatever the values
  (equal ones included), as its last handler call; and it invokes at most one of
  \<^verbatim>\<open>OnModifierAdded\<close> and \<^verbatim>\<open>OnModifierRemoved\<close>, never both.
\<close>

theorem C9_changed_once_added_removed_exclusive:
  "length (filter isChanged (NotifyModifierChanged ty l p v pv nol)) = 1
   \<and> filter isChanged (NotifyModifierChanged ty l p v pv nol) = [OnModifierChanged ty l p]
   \<and> length (filter isChanged (NotifyModifierChanged ty l p v v nol)) = 1
   \<and> length (filter isAdded (NotifyModifierChanged ty l p v pv nol))
       + length (filter isRemoved (NotifyModifierChanged ty l p v pv nol)) \<le> 1
   \<and> \<not> (list_ex isAdded (NotifyModifierChanged ty l p v pv nol)
        \<and> list_ex isRemoved (NotifyModifierChanged ty l p v pv nol))"
  by (simp add: NotifyModifierChanged_cases)

section \<open>Properties of the replicated summaries\<close>

text \<open>
  Claim C10: after the default member initialisers have run, each of the three
  replicated summaries holds \<^verbatim>\<open>NO_MODIFIER\<close>. With \<^verbatim>\<open>NO_MODIFIER\<close> as the invalid level
  of the notification, no category then counts as active: a notification from the
  initial summary \<open>b\<close> to any byte \<open>v\<close> never fires a removed-event, and fires an
  added-event exactly when \<open>v\<close> is not \<^verbatim>\<open>NO_MODIFIER\<close>.
\<close>

theorem C10_summaries_start_at_NO_MODIFIER:
  "SimulatedBoost (default_member_init NO_MODIFIER) = NO_MODIFIER
   \<and> SimulatedSnare (default_member_init NO_MODIFIER) = NO_MODIFIER
   \<and> SimulatedSlowFall (default_member_init NO_MODIFIER) = NO_MODIFIER
   \<and> (let b = SimulatedBoost (default_member_init NO_MODIFIER) in
        \<not> list_ex isRemoved (NotifyModifierChanged ty l p v b NO_MODIFIER)
        \<and> (list_ex isAdded (NotifyModifierChanged ty l p v b NO_MODIFIER) \<longleftrightarrow> v \<noteq> NO_MODIFIER))"
  by (simp add: default_member_init_def NotifyModifierChanged_cases)

section \<open>Properties of the ModifierStack\<close>

lemma remove_one_no_match:
  "\<forall>e \<in> set es. level e \<noteq> l \<Longrightarrow> remove_one l es = (es, 0)"
  by (induction es) auto

lemma remove_every_no_match:
  "\<forall>e \<in> set es. level e \<noteq> l \<Longrightarrow> remove_every l es = (es, 0)"
  by (induction es) auto

lemma remove_one_split:
  "\<exists>e \<in> set es. level e = l \<Longrightarrow>
     \<exists>pre w post. es = pre @ w # post \<and> level w = l \<and> (\<forall>e \<in> set pre. level e \<noteq> l)
        \<and> remove_one l es = (pre @ post, 1)"
proof (induction es)
  case Nil
  then show ?case by simp
next
  case (Cons a es)
  show ?case
  proof (cases "level a = l")
    case True
    then have "a # es = [] @ a # es \<and> level a = l \<and> (\<forall>e \<in> set []. level e \<noteq> l)
        \<and> remove_one l (a # es) = ([] @ es, 1)" by simp
    then show ?thesis by blast
  next
    case False
    with Cons.prems have "\<exists>e \<in> set es. level e = l" by auto
    from Cons.IH [OF this] obtain pre w post where
      h: "es = pre @ w # post" "level w = l" "\<forall>e \<in> set pre. level e \<noteq> l"
         "remove_one l es = (pre @ post, 1)" by blast
    with False have "a # es = (a # pre) @ w # post \<and> level w = l
        \<and> (\<forall>e \<in> set (a # pre). level e \<noteq> l)
        \<and> remove_one l (a # es) = ((a # pre) @ post, 1)" by simp
    then show ?thesis by blast
  qed
qed

lemma remove_every_filter:
  "remove_every l es =
     (filter (\<lambda>e. level e \<noteq> l) es, int (length (filter (\<lambda>e. level e = l) es)))"
  by (induction es) auto

lemma highest_from_split:
  "\<exists>pre w post. b # es = pre @ w # post \<and> highest_from ord b es = w
      \<and> (\<forall>x \<in> set pre. ord (level x) < ord (level w))
      \<and> (\<forall>x \<in> set post. ord (level x) \<le> ord (level w))"
proof (induction es arbitrary: b)
  case Nil
  have "[b] = [] @ b # [] \<and> highest_from ord b [] = b
      \<and> (\<forall>x \<in> set []. ord (level x) < ord (level b))
      \<and> (\<forall>x \<in> set []. ord (level x) \<le> ord (level b))" by simp
  then show ?case by blast
next
  case (Cons e es)
  show ?case
  proof (cases "ord (level b) < ord (level e)")
    case True
    from Cons.IH [of e] obtain pre w post where
      split: "e # es = pre @ w # post" and win: "highest_from ord e es = w" and
      before: "\<forall>x \<in> set pre. ord (level x) < ord (level w)" and
      after: "\<forall>x \<in> set post. ord (level x) \<le> ord (level w)" by blast
    have "e \<in> set (pre @ w # post)" using split by (metis list.set_intros(1))
    then have "ord (level e) \<le> ord (level w)" using before after by auto
    with True have bw: "ord (level b) < ord (level w)" by simp
    have 1: "b # e # es = (b # pre) @ w # post" using split by simp
    have 2: "highest_from ord b (e # es) = w" using True win by simp
    have 3: "\<forall>x \<in> set (b # pre). ord (level x) < ord (level w)" using before bw by simp
    from 1 2 3 after show ?thesis by blast
  next
    case False
    from Cons.IH [of b] obtain pre w post where
      split: "b # es = pre @ w # post" and win: "highest_from ord b es = w" and
      before: "\<forall>x \<in> set pre. ord (level x) < ord (level w)" and
      after: "\<forall>x \<in> set post. ord (level x) \<le> ord (level w)" by blast
    have 2: "highest_from ord b (e # es) = w" using False win by simp
    show ?thesis
    proof (cases pre)
      case Nil
      with split have bw: "w = b" "post = es" by simp_all
      have 1: "b # e # es = [] @ w # (e # post)" using bw by simp
      have 3: "\<forall>x \<in> set []. ord (level x) < ord (level w)" by simp
      have 4: "\<forall>x \<in> set (e # post). ord (level x) \<le> ord (level w)"
        using after bw False by simp
      from 1 2 3 4 show ?thesis by blast
    next
      case (Cons p pre')
      with split have eq: "p = b" "es = pre' @ w # post" by simp_all
      from before Cons eq have bw: "ord (level b) < ord (level w)" by simp
      with False have ew: "ord (level e) < ord (level w)" by simp
      have 1: "b # e # es = (b # e # pre') @ w # post" using eq by simp
      have 3: "\<forall>x \<in> set (b # e # pre'). ord (level x) < ord (level w)"
        using before Cons bw ew by simp
      from 1 2 3 after show ?thesis by blast
    qed
  qed
qed

lemma EffectiveEntry_split:
  assumes "es \<noteq> []"
  shows "\<exists>pre w post. es = pre @ w # post \<and> EffectiveEntry ord es = Some w
      \<and> (\<forall>x \<in> set pre. ord (level x) < ord (level w))
      \<and> (\<forall>x \<in> set post. ord (level x) \<le> ord (level w))"
proof -
  from assms obtain b bs where es: "es = b # bs" by (cases es) auto
  from highest_from_split [of b bs ord] show ?thesis
    by (simp add: es EffectiveEntry_def)
qed

text \<open>
  Claim C5. For every stack \<open>es\<close> and level \<open>l\<close>: if some entry has level \<open>l\<close>, then
  \<open>Remove l False\<close> removes exactly the earliest entry of level \<open>l\<close> (the stack splits
  as \<open>pre @ w # post\<close> with \<open>w\<close> of level \<open>l\<close> and no entry of \<open>pre\<close> of level \<open>l\<close>, and what
  is left is \<open>pre @ post\<close>) and returns 1; \<open>Remove l True\<close> leaves exactly the entries of
  the other levels, in their order, and returns the number of entries of level \<open>l\<close>; and
  if no entry has level \<open>l\<close>, both leave the stack as it is and return 0. \<open>Remove\<close> is
  a total function: there is no failure.
\<close>

theorem C5_Remove_first_every_or_nothing:
  "((\<exists>e \<in> set es. level e = l) \<longrightarrow>
      (\<exists>pre w post. es = pre @ w # post \<and> level w = l \<and> (\<forall>e \<in> set pre. level e \<noteq> l)
          \<and> Remove l False es = (pre @ post, 1)))
   \<and> Remove l True es
       = (filter (\<lambda>e. level e \<noteq> l) es, int (length (filter (\<lambda>e. level e = l) es)))
   \<and> ((\<forall>e \<in> set es. level e \<noteq> l) \<longrightarrow>
        Remove l False es = (es, 0) \<and> Remove l True es = (es, 0))"
proof (intro conjI impI)
  assume "\<exists>e \<in> set es. level e = l"
  from remove_one_split [OF this]
  show "\<exists>pre w post. es = pre @ w # post \<and> level w = l \<and> (\<forall>e \<in> set pre. level e \<noteq> l)
          \<and> Remove l False es = (pre @ post, 1)"
    by (simp add: Remove_def)
next
  show "Remove l True es
       = (filter (\<lambda>e. level e \<noteq> l) es, int (length (filter (\<lambda>e. level e = l) es)))"
    by (simp add: Remove_def remove_every_filter)
next
  assume "\<forall>e \<in> set es. level e \<noteq> l"
  then show "Remove l False es = (es, 0)"
    by (simp add: Remove_def remove_one_no_match)
next
  assume "\<forall>e \<in> set es. level e \<noteq> l"
  then show "Remove l True es = (es, 0)"
    by (simp add: Remove_def remove_every_no_match)
qed

text \<open>
  Witness for C5, the specification's stacking check: after \<open>Add A\<close> from two origins,
  \<open>Remove A False\<close> leaves the later of the two entries and returns 1, \<open>Remove A True\<close>
  leaves none and returns 2, and removing a level \<open>B\<close> that is not on the stack changes
  nothing and returns 0.
\<close>

theorem C5_witness:
  "fst (Add (\<lambda>x. 0) ''A'' ServerAuthority (fst (Add (\<lambda>x. 0) ''A'' LocalPredicted [])))
     = [\<lparr> level = ''A'', origin = LocalPredicted \<rparr>, \<lparr> level = ''A'', origin = ServerAuthority \<rparr>]
   \<and> (\<exists>e \<in> set [\<lparr> level = ''A'', origin = LocalPredicted \<rparr>,
                  \<lparr> level = ''A'', origin = ServerAuthority \<rparr>]. level e = ''A'')
   \<and> Remove ''A'' False
        [\<lparr> level = ''A'', origin = LocalPredicted \<rparr>, \<lparr> level = ''A'', origin = ServerAuthority \<rparr>]
       = ([\<lparr> level = ''A'', origin = ServerAuthority \<rparr>], 1)
   \<and> Remove ''A'' True
        [\<lparr> level = ''A'', origin = LocalPredicted \<rparr>, \<lparr> level = ''A'', origin = ServerAuthority \<rparr>]
       = ([], 2)
   \<and> ''B'' \<notin> level ` set [\<lparr> level = ''A'', origin = LocalPredicted \<rparr>,
                            \<lparr> level = ''A'', origin = ServerAuthority \<rparr>]
   \<and> Remove ''B'' False
        [\<lparr> level = ''A'', origin = LocalPredicted \<rparr>, \<lparr> level = ''A'', origin = ServerAuthority \<rparr>]
       = ([\<lparr> level = ''A'', origin = LocalPredicted \<rparr>,
           \<lparr> level = ''A'', origin = ServerAuthority \<rparr>], 0)
   \<and> Remove ''B'' True
        [\<lparr> level = ''A'', origin = LocalPredicted \<rparr>, \<lparr> level = ''A'', origin = ServerAuthority \<rparr>]
       = ([\<lparr> level = ''A'', origin = LocalPredicted \<rparr>,
           \<lparr> level = ''A'', origin = ServerAuthority \<rparr>], 0)"
proof -
  let ?s = "[\<lparr> level = ''A'', origin = LocalPredicted \<rparr>,
             \<lparr> level = ''A'', origin = ServerAuthority \<rparr>]"
  have built: "fst (Add (\<lambda>x. 0) ''A'' ServerAuthority (fst (Add (\<lambda>x. 0) ''A'' LocalPredicted [])))
      = ?s"
    by (simp add: Add_def Let_def)
  have hasA: "\<exists>e \<in> set ?s. level e = ''A''" by simp
  have noB: "\<forall>e \<in> set ?s. level e \<noteq> ''B''" by simp
  from C5_Remove_first_every_or_nothing [of ?s "''A''"] hasA
  obtain pre w post where
    split: "?s = pre @ w # post" and w: "level w = ''A''" and
    pre: "\<forall>e \<in> set pre. level e \<noteq> ''A''" and
    one: "Remove ''A'' False ?s = (pre @ post, 1)"
    by blast
  have "pre = []"
  proof (cases pre)
    case Nil
    then show ?thesis .
  next
    case (Cons p ps)
    with split have "p = \<lparr> level = ''A'', origin = LocalPredicted \<rparr>" by simp
    with pre Cons show ?thesis by simp
  qed
  with split have "post = [\<lparr> level = ''A'', origin = ServerAuthority \<rparr>]" by simp
  with one \<open>pre = []\<close> have first: "Remove ''A'' False ?s
      = ([\<lparr> level = ''A'', origin = ServerAuthority \<rparr>], 1)" by simp
  have every: "Remove ''A'' True ?s = ([], 2)"
    using C5_Remove_first_every_or_nothing [of ?s "''A''"] by simp
  have none: "Remove ''B'' False ?s = (?s, 0) \<and> Remove ''B'' True ?s = (?s, 0)"
    using C5_Remove_first_every_or_nothing [of ?s "''B''"] noB by blast
  have noB': "''B'' \<notin> level ` set ?s" by simp
  show ?thesis
    by (intro conjI built hasA first every noB' none [THEN conjunct1] none [THEN conjunct2])
qed

text \<open>
  Claim C7. Under the default tie-break policy the effective level of a non-empty stack
  is the level of an entry \<open>w\<close> of the stack such that no entry has a higher ordinal
  (so its ordinal is the maximum of the ordinals on the stack) and every entry inserted
  before \<open>w\<close> has a strictly lower ordinal: among the entries of highest ordinal, \<open>w\<close>
  is the earliest. The effective level is a function of the entries and of the
  category's ordering alone: these are the only arguments of \<open>EffectiveLevel\<close>.
\<close>

theorem C7_effective_level_highest_then_earliest:
  "es \<noteq> [] \<Longrightarrow>
     \<exists>pre w post. es = pre @ w # post
        \<and> EffectiveEntry ord es = Some w
        \<and> EffectiveLevel ord es = Some (level w)
        \<and> (\<forall>x \<in> set es. ord (level x) \<le> ord (level w))
        \<and> (\<forall>x \<in> set pre. ord (level x) < ord (level w))
        \<and> ord (level w) = Max ((\<lambda>x. ord (level x)) ` set es)"
proof -
  assume "es \<noteq> []"
  from EffectiveEntry_split [OF this, of ord] obtain pre w post where
    split: "es = pre @ w # post" and win: "EffectiveEntry ord es = Some w" and
    before: "\<forall>x \<in> set pre. ord (level x) < ord (level w)" and
    after: "\<forall>x \<in> set post. ord (level x) \<le> ord (level w)" by blast
  have lev: "EffectiveLevel ord es = Some (level w)"
    by (simp add: EffectiveLevel_def win)
  have all: "\<forall>x \<in> set es. ord (level x) \<le> ord (level w)"
    using split before after by (auto simp: less_imp_le)
  have "w \<in> set es" using split by simp
  then have "Max ((\<lambda>x. ord (level x)) ` set es) = ord (level w)"
    using all by (intro Max_eqI) auto
  then have mx: "ord (level w) = Max ((\<lambda>x. ord (level x)) ` set es)" by simp
  from split win lev all before mx show ?thesis by blast
qed

text \<open>
  Witness for C7: levels 1, 3, 2, 3 inserted in this order (ordinal = the number).
  The effective entry is the first of the two entries of level 3, the locally
  predicted one.
\<close>

theorem C7_witness:
  "[\<lparr> level = 1 :: nat, origin = ServerAuthority \<rparr>, \<lparr> level = 3, origin = LocalPredicted \<rparr>,
    \<lparr> level = 2, origin = ServerAuthority \<rparr>, \<lparr> level = 3, origin = RemoteReplicated \<rparr>] \<noteq> []
   \<and> (\<exists>pre post.
         [\<lparr> level = 1 :: nat, origin = ServerAuthority \<rparr>, \<lparr> level = 3, origin = LocalPredicted \<rparr>,
          \<lparr> level = 2, origin = ServerAuthority \<rparr>, \<lparr> level = 3, origin = RemoteReplicated \<rparr>]
           = pre @ \<lparr> level = 3, origin = LocalPredicted \<rparr> # post
         \<and> (\<forall>x \<in> set pre. level x < 3))
   \<and> EffectiveEntry (\<lambda>n. n)
        [\<lparr> level = 1 :: nat, origin = ServerAuthority \<rparr>, \<lparr> level = 3, origin = LocalPredicted \<rparr>,
         \<lparr> level = 2, origin = ServerAuthority \<rparr>, \<lparr> level = 3, origin = RemoteReplicated \<rparr>]
       = Some \<lparr> level = 3, origin = LocalPredicted \<rparr>
   \<and> EffectiveLevel (\<lambda>n. n)
        [\<lparr> level = 1 :: nat, origin = ServerAuthority \<rparr>, \<lparr> level = 3, origin = LocalPredicted \<rparr>,
         \<lparr> level = 2, origin = ServerAuthority \<rparr>, \<lparr> level = 3, origin = RemoteReplicated \<rparr>]
       = Some 3"
proof -
  let ?s = "[\<lparr> level = 1 :: nat, origin = ServerAuthority \<rparr>, \<lparr> level = 3, origin = LocalPredicted \<rparr>,
             \<lparr> level = 2, origin = ServerAuthority \<rparr>, \<lparr> level = 3, origin = RemoteReplicated \<rparr>]"
  have ne: "?s \<noteq> []" by simp
  have val: "EffectiveEntry (\<lambda>n. n) ?s = Some \<lparr> level = 3, origin = LocalPredicted \<rparr>"
    by (simp add: EffectiveEntry_def)
  from C7_effective_level_highest_then_earliest [OF ne, of "\<lambda>n. n"] obtain pre w post where
    split: "?s = pre @ w # post" and win: "EffectiveEntry (\<lambda>n. n) ?s = Some w" and
    lev: "EffectiveLevel (\<lambda>n. n) ?s = Some (level w)" and
    before: "\<forall>x \<in> set pre. level x < level w" by blast
  from win val have w: "w = \<lparr> level = 3, origin = LocalPredicted \<rparr>" by simp
  from split before w have
    "\<exists>pre post. ?s = pre @ \<lparr> level = 3, origin = LocalPredicted \<rparr> # post
        \<and> (\<forall>x \<in> set pre. level x < 3)" by auto
  with ne val lev w show ?thesis by simp
qed

section \<open>The stack and the notification together\<close>

text \<open>
  Claim C4, as amended. An empty stack receives \<open>Add T1\<close>, \<open>Add T2\<close> and
  \<open>Remove T1\<close> (one entry). What is left is the entry of \<open>T2\<close>, so the effective level
  goes from the sentinel to \<open>T2\<close>; this holds for all levels and orderings, the case of
  the claim (\<open>T2\<close> the maximum) included. The notification of this one transition, with
  the effective levels as its values and the sentinel as invalid level, calls
  \<^verbatim>\<open>OnModifierAdded\<close> once, \<^verbatim>\<open>OnModifierRemoved\<close> never and \<^verbatim>\<open>OnModifierChanged\<close> once:
  the source calls the changed-handler on every notification, together with the
  added-handler here.
\<close>

theorem C4_add_add_remove_fires_added_and_changed:
  "(let s0 = [] :: 'l ModifierStack;
        s1 = fst (Add ord T1 o1 s0);
        s2 = fst (Add ord T2 o2 s1);
        s3 = fst (Remove T1 False s2);
        evs = NotifyModifierChanged ty lt pt (EffectiveLevel ord s3) (EffectiveLevel ord s0) None
    in s3 = [\<lparr> level = T2, origin = o2 \<rparr>]
       \<and> EffectiveLevel ord s0 = None
       \<and> EffectiveLevel ord s3 = Some T2
       \<and> evs = [OnModifierAdded ty lt pt, OnModifierChanged ty lt pt]
       \<and> length (filter isAdded evs) = 1
       \<and> length (filter isRemoved evs) = 0
       \<and> length (filter isChanged evs) = 1)"
  by (simp add: Let_def Add_def Remove_def EffectiveLevel_def EffectiveEntry_def
        NotifyModifierChanged_def)

text \<open>
  Claim C4 as stated fails: with the two Boost levels, Level2 above Level1, the
  sequence leaves Level2 as effective level, and the notification of the transition
  from the sentinel to Level2 fires one changed-event, not zero.
\<close>

theorem C4_counterexample:
  "ordinal [''Modifier.Boost.Level1'', ''Modifier.Boost.Level2''] ''Modifier.Boost.Level1''
     < ordinal [''Modifier.Boost.Level1'', ''Modifier.Boost.Level2''] ''Modifier.Boost.Level2''
   \<and> EffectiveLevel (ordinal [''Modifier.Boost.Level1'', ''Modifier.Boost.Level2''])
        (fst (Remove ''Modifier.Boost.Level1'' False
          (fst (Add (ordinal [''Modifier.Boost.Level1'', ''Modifier.Boost.Level2''])
                  ''Modifier.Boost.Level2'' LocalPredicted
            (fst (Add (ordinal [''Modifier.Boost.Level1'', ''Modifier.Boost.Level2''])
                    ''Modifier.Boost.Level1'' LocalPredicted []))))))
       = Some ''Modifier.Boost.Level2''
   \<and> length (filter isChanged
        (NotifyModifierChanged ''Modifier.Boost'' ''Modifier.Boost.Level2'' ''''
           (Some ''Modifier.Boost.Level2'') (None :: string option) None)) = 1
   \<and> NotifyModifierChanged ''Modifier.Boost'' ''Modifier.Boost.Level2'' ''''
           (Some ''Modifier.Boost.Level2'') (None :: string option) None
       = [OnModifierAdded ''Modifier.Boost'' ''Modifier.Boost.Level2'' '''',
          OnModifierChanged ''Modifier.Boost'' ''Modifier.Boost.Level2'' '''']"
  by (simp add: Add_def Remove_def EffectiveLevel_def EffectiveEntry_def ordinal_def
        NotifyModifierChanged_def)

end
